theory Spec2Isabelle
  imports Main "HOL-Library.Word" "HOL-Library.Sublist"
begin

unbundle bit_operations_syntax

section \<open>Data model of main.go\<close>

text \<open>
  A \<open>float64\<close> is its IEEE-754 binary64 bit pattern (what \<open>math.Float64bits\<close> returns).
  Word arithmetic is never applied to it: the one float operation of the program,
  the addition in \<open>Subtotal\<close>, is a parameter \<open>fadd\<close> of the model, so that nothing
  is assumed about rounding. The zero value of a \<open>float64\<close> variable is the pattern 0.
\<close>

type_synonym float64 = "64 word"

type_synonym byte = "8 word"

text \<open>
  Pointers. No statement of the program writes a field of a \<open>Beer\<close> or of a \<open>Case\<close>, so a
  \<open>*Beer\<close> and a \<open>*Case\<close> are modelled by \<open>None\<close> (the nil pointer) or \<open>Some\<close> of the
  pointee. A \<open>Cart\<close> is mutated in place by \<open>AddCase\<close> and shared between goroutines,
  so a \<open>*Cart\<close> is \<open>None\<close> (nil) or \<open>Some\<close> of an address into a store of carts.
  A slice is the list of its elements.
\<close>

record Beer =
  Brand :: string
  Name :: string
  Ounces :: float64

record Case =
  Count :: int
  Beer :: "Beer option"
  Price :: float64

record Cart =
  Cases :: "Case option list"

type_synonym addr = nat

type_synonym cart_ptr = "addr option"

datatype panic =
    NilDereference
  | NonPositiveInterval
  | SendOnClosedChannel

section \<open>Cart\<close>

definition NewCart :: Cart where
  "NewCart = \<lparr>Cases = []\<rparr>"

text \<open>\<open>c.Cases = append(c.Cases, beerCase)\<close>, for the cart \<open>c\<close> the receiver points to.\<close>

definition AddCase :: "Cart \<Rightarrow> Case option \<Rightarrow> Cart" where
  "AddCase c beerCase = c\<lparr>Cases := Cases c @ [beerCase]\<rparr>"

text \<open>
  The \<open>range\<close> loop of \<open>Subtotal\<close>, with the running \<open>subtotal\<close> as accumulator.
  \<open>beerCase.Price\<close> dereferences the element: on a nil element the program panics.
\<close>

fun Subtotal_loop ::
  "(float64 \<Rightarrow> float64 \<Rightarrow> float64) \<Rightarrow> float64 \<Rightarrow> Case option list \<Rightarrow> panic + float64" where
  "Subtotal_loop fadd subtotal [] = Inr subtotal"
| "Subtotal_loop fadd subtotal (None # rest) = Inl NilDereference"
| "Subtotal_loop fadd subtotal (Some beerCase # rest) =
     Subtotal_loop fadd (fadd subtotal (Price beerCase)) rest"

definition Subtotal :: "(float64 \<Rightarrow> float64 \<Rightarrow> float64) \<Rightarrow> Cart \<Rightarrow> panic + float64" where
  "Subtotal fadd c = Subtotal_loop fadd 0 (Cases c)"

subsection \<open>Fixtures\<close>

definition FixtureBeer :: "string \<Rightarrow> string \<Rightarrow> float64 \<Rightarrow> Beer option" where
  "FixtureBeer brand name ounces = Some \<lparr>Brand = brand, Name = name, Ounces = ounces\<rparr>"

definition FixtureCase :: "int \<Rightarrow> Beer option \<Rightarrow> float64 \<Rightarrow> Case option" where
  "FixtureCase count beer price = Some \<lparr>Count = count, Beer = beer, Price = price\<rparr>"

text \<open>The literals 11.0 and 14 as bit patterns.\<close>

definition FixtureCart :: Cart where
  "FixtureCart =
     \<lparr>Cases = [FixtureCase 4 (FixtureBeer ''Duvel'' ''Tripel Hop'' 0x4026000000000000)
                 0x402C000000000000]\<rparr>"

section \<open>ProcessPayment\<close>

text \<open>
  Error values. \<open>UnsupportedValueError\<close> is what \<open>json.Marshal\<close> returns for a float
  that is NaN or infinite; \<open>ExternError\<close> is an error produced outside the program
  (by \<open>http.Post\<close>, by a read of the response body or by closing it), named by its
  message; \<open>PaymentServerError n\<close> is the value of
  \<open>fmt.Errorf("payment server error: %d", n)\<close>.
\<close>

datatype error =
    UnsupportedValueError float64
  | ExternError string
  | PaymentServerError int

definition IsNaN :: "float64 \<Rightarrow> bool" where
  "IsNaN f = (drop_bit 52 f AND 0x7FF = 0x7FF \<and> f AND 0xFFFFFFFFFFFFF \<noteq> 0)"

definition IsInf :: "float64 \<Rightarrow> bool" where
  "IsInf f = (drop_bit 52 f AND 0x7FF = 0x7FF \<and> f AND 0xFFFFFFFFFFFFF = 0)"

text \<open>
  The bytes \<open>json.Marshal\<close> produces for a finite float are its JSON number text; the
  digits are not modelled, the text is named by the float it encodes.
\<close>

datatype json_text = NumberText float64

definition json_Marshal :: "float64 \<Rightarrow> error + json_text" where
  "json_Marshal v =
     (if IsInf v \<or> IsNaN v then Inl (UnsupportedValueError v) else Inr (NumberText v))"

text \<open>
  A response body is a reader: the sequence of what its \<open>Read\<close> calls return, ending
  with end-of-file or with an error. \<open>ReadAll\<close> reads until one of the two and returns
  the data read so far, with the error if there was one.
\<close>

datatype body =
    EOF
  | Data "byte list" body
  | ReadFails error

record Response =
  StatusCode :: int
  Body :: body
  BodyClose :: "error option"

fun ReadAll_from :: "byte list \<Rightarrow> body \<Rightarrow> byte list \<times> error option" where
  "ReadAll_from b EOF = (b, None)"
| "ReadAll_from b (Data p r) = ReadAll_from (b @ p) r"
| "ReadAll_from b (ReadFails err) = (b, Some err)"

definition ReadAll :: "body \<Rightarrow> byte list \<times> error option" where
  "ReadAll r = ReadAll_from [] r"

text \<open>
  One run of \<open>ProcessPayment\<close>. The network is the parameter \<open>post\<close>, the result of
  \<open>http.Post\<close> for a URL, a content type and a request body (\<open>None\<close>: the empty buffer
  made from a nil slice). \<open>ret_body\<close> and \<open>ret_err\<close> are the two results (\<open>None\<close> is
  nil); \<open>raised\<close> lists every error value a call of the body produced, with the call
  it came from. The function calls no logger.
\<close>

datatype origin = FromMarshal | FromPost | FromStatus | FromReadAll | FromClose

record payment_run =
  ret_body :: "byte list option"
  ret_err :: "error option"
  raised :: "(origin \<times> error) list"

definition from_call :: "origin \<Rightarrow> error option \<Rightarrow> (origin \<times> error) list" where
  "from_call w r = (case r of None \<Rightarrow> [] | Some err \<Rightarrow> [(w, err)])"

text \<open>
  The two results of \<open>b, _ := json.Marshal(total)\<close>: the slice \<open>b\<close> (nil when the call
  fails) and the error the blank identifier discards.
\<close>

definition request_body :: "float64 \<Rightarrow> json_text option" where
  "request_body total' = (case json_Marshal total' of Inl err \<Rightarrow> None | Inr t \<Rightarrow> Some t)"

definition marshal_error :: "float64 \<Rightarrow> error option" where
  "marshal_error total' = (case json_Marshal total' of Inl err \<Rightarrow> Some err | Inr t \<Rightarrow> None)"

definition ProcessPayment_run ::
  "(string \<Rightarrow> string \<Rightarrow> json_text option \<Rightarrow> error + Response) \<Rightarrow> string \<Rightarrow> float64 \<Rightarrow> payment_run" where
  "ProcessPayment_run post paymentServer total' =
     (case post paymentServer ''application/json'' (request_body total') of
        Inl err \<Rightarrow>
          \<lparr>ret_body = None, ret_err = Some err,
           raised = from_call FromMarshal (marshal_error total') @ [(FromPost, err)]\<rparr>
      | Inr resp \<Rightarrow>
          if StatusCode resp \<ge> 400 then
            \<lparr>ret_body = None, ret_err = Some (PaymentServerError (StatusCode resp)),
             raised = from_call FromMarshal (marshal_error total')
               @ [(FromStatus, PaymentServerError (StatusCode resp))]
               @ from_call FromClose (BodyClose resp)\<rparr>
          else
            (let (data, rerr) = ReadAll (Body resp)
             in \<lparr>ret_body = Some data, ret_err = rerr,
                 raised = from_call FromMarshal (marshal_error total')
                   @ from_call FromReadAll rerr
                   @ from_call FromClose (BodyClose resp)\<rparr>))"

definition ProcessPayment ::
  "(string \<Rightarrow> string \<Rightarrow> json_text option \<Rightarrow> error + Response) \<Rightarrow> string \<Rightarrow> float64
     \<Rightarrow> byte list option \<times> error option" where
  "ProcessPayment post paymentServer total' =
     (let r = ProcessPayment_run post paymentServer total' in (ret_body r, ret_err r))"

text \<open>The data a body yields before it ends, and the error it ends with, if any.\<close>

fun body_data :: "body \<Rightarrow> byte list" where
  "body_data EOF = []"
| "body_data (Data p r) = p @ body_data r"
| "body_data (ReadFails err) = []"

fun body_error :: "body \<Rightarrow> error option" where
  "body_error EOF = None"
| "body_error (Data p r) = body_error r"
| "body_error (ReadFails err) = Some err"

subsection \<open>Payment servers\<close>

text \<open>
  The two servers of \<open>TestProcessPayment\<close> (one answers 200 with the body \<open>OK\<close>, one
  answers 500 with an empty body), a server that cannot be reached, and one that
  answers 200 and whose connection breaks after the first byte of the body. The
  amount of the test, 21.11, and a NaN are given by their bits.
\<close>

definition server_OK :: "string \<Rightarrow> string \<Rightarrow> json_text option \<Rightarrow> error + Response" where
  "server_OK url contentType b =
     Inr \<lparr>StatusCode = 200, Body = Data [0x4F, 0x4B] EOF, BodyClose = None\<rparr>"

definition server_500 :: "string \<Rightarrow> string \<Rightarrow> json_text option \<Rightarrow> error + Response" where
  "server_500 url contentType b = Inr \<lparr>StatusCode = 500, Body = EOF, BodyClose = None\<rparr>"

definition server_down :: "string \<Rightarrow> string \<Rightarrow> json_text option \<Rightarrow> error + Response" where
  "server_down url contentType b = Inl (ExternError ''connection refused'')"

definition server_broken :: "string \<Rightarrow> string \<Rightarrow> json_text option \<Rightarrow> error + Response" where
  "server_broken url contentType b =
     Inr \<lparr>StatusCode = 200, Body = Data [0x4F] (ReadFails (ExternError ''unexpected EOF'')),
          BodyClose = None\<rparr>"

definition amount_21_11 :: float64 where
  "amount_21_11 = 0x40351C28F5C28F5C"

definition amount_NaN :: float64 where
  "amount_NaN = 0x7FF8000000000001"

section \<open>OrderHandler\<close>

text \<open>
  A value of type \<open>interface{}\<close> on the message channel, by its dynamic type: a \<open>*Cart\<close>
  (possibly the nil pointer), a \<open>*Case\<close>, the nil interface, or a value of any other
  type, named by that type.
\<close>

datatype msg =
    CartPtr cart_ptr
  | CasePtr "Case option"
  | NilInterface
  | OtherValue string

text \<open>The records the package-level logger receives: level, message, attached field.\<close>

datatype level = DebugLevel | InfoLevel | ErrorLevel

datatype field = NoField | WithError error | WithField msg

datatype log_record = Log level string field

record OrderHandler =
  ProcessedOrders :: "cart_ptr list"

definition PlaceOrder :: "OrderHandler \<Rightarrow> cart_ptr \<Rightarrow> OrderHandler \<times> error option" where
  "PlaceOrder oh cart' = (oh\<lparr>ProcessedOrders := ProcessedOrders oh @ [cart']\<rparr>, None)"

text \<open>The type assertion \<open>cart, ok := msg.(*Cart)\<close>: \<open>Some cart\<close> when \<open>ok\<close>.\<close>

definition assert_Cart :: "msg \<Rightarrow> cart_ptr option" where
  "assert_Cart m = (case m of CartPtr p \<Rightarrow> Some p | _ \<Rightarrow> None)"

text \<open>The body of the loop of \<open>startOrderHandler\<close> after a message has been received.\<close>

definition handle :: "msg \<Rightarrow> OrderHandler \<times> log_record list \<Rightarrow> OrderHandler \<times> log_record list" where
  "handle m st =
     (case st of (oh, lg) \<Rightarrow>
        (case assert_Cart m of
           Some cart' \<Rightarrow>
             (case PlaceOrder oh cart' of
                (oh', Some err) \<Rightarrow>
                  (oh', lg @ [Log ErrorLevel ''error placing order'' (WithError err)])
              | (oh', None) \<Rightarrow>
                  (oh', lg @ [Log InfoLevel ''successfully placed order'' NoField]))
         | None \<Rightarrow>
             (oh, lg @ [Log ErrorLevel ''received invalid message on message channel''
                          (WithField m)])))"

text \<open>
  What the receive \<open>msg, ok := <-o.messageChan\<close> yields: a message, or \<open>ok = false\<close>
  on a closed and drained channel. The loop runs on the sequence of its receives.
  When the sequence is used up the loop has not returned: it is blocked in the next
  receive (\<open>Waiting\<close>).
\<close>

datatype recv = Received msg | ChanClosed

datatype 'a outcome = Returned 'a | Waiting 'a

fun startOrderHandler ::
  "recv list \<Rightarrow> OrderHandler \<times> log_record list \<Rightarrow> (OrderHandler \<times> log_record list) outcome" where
  "startOrderHandler [] st = Waiting st"
| "startOrderHandler (ChanClosed # rest) st =
     Returned (fst st, snd st @ [Log DebugLevel ''message channel closed'' NoField])"
| "startOrderHandler (Received m # rest) st = startOrderHandler rest (handle m st)"

fun state_of :: "'a outcome \<Rightarrow> 'a" where
  "state_of (Returned st) = st"
| "state_of (Waiting st) = st"

fun has_returned :: "'a outcome \<Rightarrow> bool" where
  "has_returned (Returned st) = True"
| "has_returned (Waiting st) = False"

definition orders_after :: "recv list \<Rightarrow> OrderHandler \<Rightarrow> cart_ptr list" where
  "orders_after rs oh = ProcessedOrders (fst (state_of (startOrderHandler rs (oh, []))))"

definition log_after :: "recv list \<Rightarrow> OrderHandler \<Rightarrow> log_record list" where
  "log_after rs oh = snd (state_of (startOrderHandler rs (oh, [])))"

text \<open>The handler as \<open>TestStartOrderHandler\<close> builds it: no processed order yet.\<close>

definition NewOrderHandler :: OrderHandler where
  "NewOrderHandler = \<lparr>ProcessedOrders = []\<rparr>"

text \<open>The messages a sequence of receives yields before the channel is seen closed.\<close>

fun payloads :: "recv list \<Rightarrow> msg list" where
  "payloads [] = []"
| "payloads (ChanClosed # rest) = []"
| "payloads (Received m # rest) = m # payloads rest"

text \<open>The cart pointers among a list of messages, in order.\<close>

fun carts_of :: "msg list \<Rightarrow> cart_ptr list" where
  "carts_of [] = []"
| "carts_of (CartPtr p # ms) = p # carts_of ms"
| "carts_of (m # ms) = carts_of ms"

text \<open>The log record the loop writes for a message.\<close>

definition record_of :: "msg \<Rightarrow> log_record" where
  "record_of m =
     (case m of
        CartPtr p \<Rightarrow> Log InfoLevel ''successfully placed order'' NoField
      | _ \<Rightarrow> Log ErrorLevel ''received invalid message on message channel'' (WithField m))"

section \<open>Subscription\<close>

text \<open>\<open>time.Duration\<close> is a count of nanoseconds; the program only stores and passes it.\<close>

type_synonym Duration = int

text \<open>
  The two fields the mutex guards. Each accessor holds the lock for its whole body, so
  a call is one atomic step on the fields. The channel is part of the system state below.
\<close>

record Subscription =
  cart :: cart_ptr
  interval :: Duration

definition GetCart :: "Subscription \<Rightarrow> cart_ptr" where
  "GetCart s = cart s"

definition SetCart :: "Subscription \<Rightarrow> cart_ptr \<Rightarrow> Subscription" where
  "SetCart s c = s\<lparr>cart := c\<rparr>"

definition GetInterval :: "Subscription \<Rightarrow> Duration" where
  "GetInterval s = interval s"

definition SetInterval :: "Subscription \<Rightarrow> Duration \<Rightarrow> Subscription" where
  "SetInterval s t = s\<lparr>interval := t\<rparr>"

subsection \<open>The timer loop among the other goroutines\<close>

text \<open>
  Where the goroutine running \<open>startSubscriptionTimer\<close> stands:
  before \<open>time.NewTicker(s.GetInterval())\<close>; blocked in the \<open>select\<close>; in the ticker
  case before \<open>s.GetCart()\<close> is evaluated; in the send with the cart it read;
  returned; panicked.
\<close>

datatype place =
    NotStarted
  | AtSelect
  | GotTick
  | Sending cart_ptr
  | Finished
  | Panicked panic

text \<open>
  The state the loop shares with the rest of the program: the subscription, the
  loop's place, the period of its running ticker (\<open>None\<close>: no ticker, or stopped),
  whether a tick waits in \<open>ticker.C\<close> (a channel of capacity 1), whether the context is
  cancelled, the message channel (capacity, buffered messages, closed), the messages
  the consumer has received so far, and the carts in memory.
\<close>

record sys =
  sub :: Subscription
  at :: place
  ticker :: "Duration option"
  tick_ready :: bool
  cancelled :: bool
  chan_cap :: nat
  chan_buf :: "msg list"
  chan_closed :: bool
  delivered :: "msg list"
  store :: "addr \<Rightarrow> Cart"

text \<open>
  The atomic steps. Those of the loop: \<open>Start\<close> (\<open>time.NewTicker(s.GetInterval())\<close>,
  which panics on a non-positive duration), \<open>SelectDone\<close> and \<open>SelectTick\<close> (the
  \<open>select\<close> takes a ready case; when both are ready either may be taken), \<open>ReadCart\<close>
  (\<open>s.GetCart()\<close>), and the send, which completes into the buffer when there is room
  (\<open>SendBuffered\<close>), or by handing the message to a waiting receiver (\<open>SendDirect\<close>:
  the buffer is then empty), and panics on a closed channel (\<open>SendPanics\<close>). The
  deferred \<open>ticker.Stop()\<close> runs when the function returns or panics.
  Those of the other goroutines and of the runtime: calls of \<open>SetCart\<close>, \<open>SetInterval\<close>
  and of \<open>AddCase\<close> on a cart in memory, the cancellation of the context, the ticker
  putting a tick in its channel, the consumer receiving the oldest buffered message,
  the closing of the channel.
\<close>

datatype action =
    Start
  | SelectDone
  | SelectTick
  | ReadCart
  | SendBuffered
  | SendDirect
  | SendPanics
  | CallSetCart cart_ptr
  | CallSetInterval Duration
  | CallAddCase addr "Case option"
  | Cancel
  | TickerFires
  | Receive
  | CloseChan

fun is_panicked :: "place \<Rightarrow> bool" where
  "is_panicked (Panicked p) = True"
| "is_panicked _ = False"

fun loop_step :: "action \<Rightarrow> sys \<Rightarrow> sys option" where
  "loop_step Start s =
     (if at s = NotStarted then
        (let d = GetInterval (sub s)
         in if d \<le> 0 then Some (s\<lparr>at := Panicked NonPositiveInterval\<rparr>)
            else Some (s\<lparr>ticker := Some d, at := AtSelect\<rparr>))
      else None)"
| "loop_step SelectDone s =
     (if at s = AtSelect \<and> cancelled s then Some (s\<lparr>at := Finished, ticker := None\<rparr>)
      else None)"
| "loop_step SelectTick s =
     (if at s = AtSelect \<and> tick_ready s then Some (s\<lparr>tick_ready := False, at := GotTick\<rparr>)
      else None)"
| "loop_step ReadCart s =
     (if at s = GotTick then Some (s\<lparr>at := Sending (GetCart (sub s))\<rparr>) else None)"
| "loop_step SendBuffered s =
     (case at s of
        Sending c \<Rightarrow>
          if \<not> chan_closed s \<and> length (chan_buf s) < chan_cap s
          then Some (s\<lparr>chan_buf := chan_buf s @ [CartPtr c], at := AtSelect\<rparr>)
          else None
      | _ \<Rightarrow> None)"
| "loop_step SendDirect s =
     (case at s of
        Sending c \<Rightarrow>
          if \<not> chan_closed s \<and> chan_buf s = []
          then Some (s\<lparr>delivered := delivered s @ [CartPtr c], at := AtSelect\<rparr>)
          else None
      | _ \<Rightarrow> None)"
| "loop_step SendPanics s =
     (case at s of
        Sending c \<Rightarrow>
          if chan_closed s
          then Some (s\<lparr>at := Panicked SendOnClosedChannel, ticker := None\<rparr>)
          else None
      | _ \<Rightarrow> None)"
| "loop_step _ s = None"

fun env_step :: "action \<Rightarrow> sys \<Rightarrow> sys option" where
  "env_step (CallSetCart c) s = Some (s\<lparr>sub := SetCart (sub s) c\<rparr>)"
| "env_step (CallSetInterval t) s = Some (s\<lparr>sub := SetInterval (sub s) t\<rparr>)"
| "env_step (CallAddCase a beerCase) s =
     Some (s\<lparr>store := (store s)(a := AddCase (store s a) beerCase)\<rparr>)"
| "env_step Cancel s = Some (s\<lparr>cancelled := True\<rparr>)"
| "env_step TickerFires s =
     (if ticker s \<noteq> None then Some (s\<lparr>tick_ready := True\<rparr>) else None)"
| "env_step Receive s =
     (case chan_buf s of
        m # rest \<Rightarrow> Some (s\<lparr>chan_buf := rest, delivered := delivered s @ [m]\<rparr>)
      | [] \<Rightarrow> None)"
| "env_step CloseChan s =
     (if chan_closed s then None else Some (s\<lparr>chan_closed := True\<rparr>))"
| "env_step _ s = None"

fun is_loop_action :: "action \<Rightarrow> bool" where
  "is_loop_action Start = True"
| "is_loop_action SelectDone = True"
| "is_loop_action SelectTick = True"
| "is_loop_action ReadCart = True"
| "is_loop_action SendBuffered = True"
| "is_loop_action SendDirect = True"
| "is_loop_action SendPanics = True"
| "is_loop_action _ = False"

text \<open>
  One step of the program: \<open>None\<close> when the action cannot be taken in the state.
  An unrecovered panic ends the program: nothing steps after it.
\<close>

definition step :: "action \<Rightarrow> sys \<Rightarrow> sys option" where
  "step a s =
     (if is_panicked (at s) then None
      else if is_loop_action a then loop_step a s
      else env_step a s)"

text \<open>A schedule is a list of actions; \<open>exec\<close> runs it, \<open>None\<close> when it cannot be run.\<close>

fun exec :: "action list \<Rightarrow> sys \<Rightarrow> sys option" where
  "exec [] s = Some s"
| "exec (a # as) s = (case step a s of None \<Rightarrow> None | Some s' \<Rightarrow> exec as s')"

text \<open>
  The messages the loop has sent (received by the consumer, or waiting in the
  buffer), and those it has emitted: the sent ones and the one in flight, read from
  the subscription and not yet sent.
\<close>

definition sent :: "sys \<Rightarrow> msg list" where
  "sent s = delivered s @ chan_buf s"

definition in_flight :: "sys \<Rightarrow> msg list" where
  "in_flight s = (case at s of Sending c \<Rightarrow> [CartPtr c] | _ \<Rightarrow> [])"

definition emitted :: "sys \<Rightarrow> msg list" where
  "emitted s = sent s @ in_flight s"

text \<open>The content of a message: the cart a non-nil \<open>*Cart\<close> points to.\<close>

definition content :: "sys \<Rightarrow> msg \<Rightarrow> Cart option" where
  "content s m = (case m of CartPtr (Some a) \<Rightarrow> Some (store s a) | _ \<Rightarrow> None)"

fun is_SetCart :: "action \<Rightarrow> bool" where
  "is_SetCart (CallSetCart c) = True"
| "is_SetCart _ = False"

fun is_SetInterval :: "action \<Rightarrow> bool" where
  "is_SetInterval (CallSetInterval t) = True"
| "is_SetInterval _ = False"

text \<open>A program with a subscription whose loop has not started, and an open, empty channel.\<close>

definition initial :: "Subscription \<Rightarrow> nat \<Rightarrow> (addr \<Rightarrow> Cart) \<Rightarrow> sys" where
  "initial s cap mem =
     \<lparr>sub = s, at = NotStarted, ticker = None, tick_ready = False, cancelled = False,
      chan_cap = cap, chan_buf = [], chan_closed = False, delivered = [], store = mem\<rparr>"

text \<open>The state with another interval in the subscription, all else the same.\<close>

definition with_interval :: "Duration \<Rightarrow> sys \<Rightarrow> sys" where
  "with_interval d s = s\<lparr>sub := SetInterval (sub s) d\<rparr>"

subsection \<open>The program of TestStartSubscriptionTimer\<close>

text \<open>
  The two carts of the test, at the addresses 1 and 2 (the prices 14 and 24 and the
  volumes 11.0 and 12.0 by their bits), and the subscription it builds: \<open>cart1\<close>, an
  interval of one second, a channel of the given capacity (0 in the test).
\<close>

definition cart1 :: Cart where
  "cart1 =
     \<lparr>Cases = [FixtureCase 4 (FixtureBeer ''Duvel'' ''Tripel Hop'' 0x4026000000000000)
                 0x402C000000000000]\<rparr>"

definition cart2 :: Cart where
  "cart2 =
     \<lparr>Cases = [FixtureCase 30 (FixtureBeer ''Labatt'' ''Blue Light'' 0x4028000000000000)
                 0x4038000000000000]\<rparr>"

definition test_memory :: "addr \<Rightarrow> Cart" where
  "test_memory a = (if a = 1 then cart1 else if a = 2 then cart2 else NewCart)"

definition test_sys :: "nat \<Rightarrow> sys" where
  "test_sys cap = initial \<lparr>cart = Some 1, interval = 1000000000\<rparr> cap test_memory"

section \<open>Properties of the cart\<close>

lemma Cases_foldl_AddCase: "Cases (foldl AddCase c xs) = Cases c @ xs"
  by (induction xs arbitrary: c) (simp_all add: AddCase_def)

lemma Subtotal_loop_Some:
  "Subtotal_loop fadd acc (map Some cs) = Inr (foldl fadd acc (map Price cs))"
  by (induction cs arbitrary: acc) simp_all

lemma Subtotal_loop_nil_element:
  "None \<in> set xs \<Longrightarrow> Subtotal_loop fadd acc xs = Inl NilDereference"
proof (induction xs arbitrary: acc)
  case Nil
  then show ?case by simp
next
  case (Cons x xs)
  then show ?case by (cases x) auto
qed

lemma Subtotal_loop_no_nil:
  "None \<notin> set xs \<Longrightarrow> Subtotal_loop fadd acc xs = Inr (foldl fadd acc (map (Price \<circ> the) xs))"
proof (induction xs arbitrary: acc)
  case Nil
  then show ?case by simp
next
  case (Cons x xs)
  then show ?case by (cases x) auto
qed

text \<open>
  Claim C5. A cart built from the empty cart by \<open>AddCase\<close> calls, each adding a case:
  \<open>Subtotal\<close> returns the sum of the \<open>Price\<close> fields, taken in insertion order from the
  zero value with the machine's addition, whatever that addition is. The sum reads
  no other field: giving every case another \<open>Count\<close> and another \<open>Beer\<close> leaves it
  unchanged. No price is rejected: \<open>cs\<close> ranges over all cases, the sign bit of a price
  set or not. The subtotal of the empty cart is the zero value.
\<close>

theorem Subtotal_is_sum_of_prices:
  "Subtotal fadd NewCart = Inr 0
   \<and> Subtotal fadd (foldl AddCase NewCart (map Some cs)) = Inr (foldl fadd 0 (map Price cs))
   \<and> Subtotal fadd (foldl AddCase NewCart (map (\<lambda>c. Some (c\<lparr>Count := n c, Beer := b c\<rparr>)) cs))
       = Subtotal fadd (foldl AddCase NewCart (map Some cs))"
proof -
  have empty: "Subtotal fadd NewCart = Inr 0"
    by (simp add: Subtotal_def NewCart_def)
  have built: "Subtotal fadd (foldl AddCase NewCart (map Some ds)) = Inr (foldl fadd 0 (map Price ds))" for ds
    by (simp add: Subtotal_def Cases_foldl_AddCase NewCart_def Subtotal_loop_Some)
  have "map Price (map (\<lambda>c. c\<lparr>Count := n c, Beer := b c\<rparr>) cs) = map Price cs"
    by simp
  then have "Subtotal fadd (foldl AddCase NewCart (map Some (map (\<lambda>c. c\<lparr>Count := n c, Beer := b c\<rparr>) cs)))
      = Subtotal fadd (foldl AddCase NewCart (map Some cs))"
    by (simp only: built)
  then have indep: "Subtotal fadd (foldl AddCase NewCart (map (\<lambda>c. Some (c\<lparr>Count := n c, Beer := b c\<rparr>)) cs))
       = Subtotal fadd (foldl AddCase NewCart (map Some cs))"
    by (simp add: comp_def)
  from empty built indep show ?thesis by blast
qed

text \<open>
  Claim C6, as stated, fails: \<open>AddCase\<close> accepts the nil pointer as a line item, and on
  the cart that holds it \<open>Subtotal\<close> panics, whatever the addition.
\<close>

theorem Subtotal_nil_case_counterexample:
  "\<forall>fadd. Subtotal fadd (AddCase NewCart None) = Inl NilDereference"
  by (simp add: Subtotal_def AddCase_def NewCart_def)

text \<open>
  Claim C6, amended. \<open>AddCase\<close> always appends its argument at the end. \<open>Subtotal\<close>
  returns a value on every cart whose line items are all non-nil, the empty cart
  included, and panics with a nil dereference on every cart that holds a nil line
  item.
\<close>

theorem AddCase_appends_Subtotal_needs_cases:
  "Cases (AddCase c beerCase) = Cases c @ [beerCase]
   \<and> Subtotal fadd c =
       (if None \<in> set (Cases c) then Inl NilDereference
        else Inr (foldl fadd 0 (map (Price \<circ> the) (Cases c))))"
  by (simp add: AddCase_def Subtotal_def Subtotal_loop_nil_element Subtotal_loop_no_nil)

section \<open>Properties of ProcessPayment\<close>

lemma ReadAll_from_eq: "ReadAll_from b r = (b @ body_data r, body_error r)"
  by (induction r arbitrary: b) simp_all

lemma ReadAll_eq: "ReadAll r = (body_data r, body_error r)"
  by (simp add: ReadAll_def ReadAll_from_eq)

text \<open>
  Claim C4, amended. When the request fails, its error is returned as it is, with a
  nil body. When the status code is 400 or more, the body is nil and the error is
  the payment server error of that status code. When the status code is below 400,
  the results are those of reading the body to its end: all its bytes and no error
  when the read succeeds, the bytes read before the failure and the read error when
  it fails.
\<close>

theorem ProcessPayment_outcomes:
  "(post paymentServer ''application/json'' (request_body t) = Inl err
      \<longrightarrow> ProcessPayment post paymentServer t = (None, Some err))
   \<and> (post paymentServer ''application/json'' (request_body t) = Inr resp \<and> StatusCode resp \<ge> 400
      \<longrightarrow> ProcessPayment post paymentServer t = (None, Some (PaymentServerError (StatusCode resp))))
   \<and> (post paymentServer ''application/json'' (request_body t) = Inr resp \<and> StatusCode resp < 400
      \<longrightarrow> ProcessPayment post paymentServer t = (Some (body_data (Body resp)), body_error (Body resp)))"
  by (simp add: ProcessPayment_def ProcessPayment_run_def ReadAll_eq)

text \<open>The three cases, on the unreachable server and on the two servers of the test.\<close>

theorem ProcessPayment_outcomes_witness:
  "ProcessPayment server_down ''http://payment'' amount_21_11
      = (None, Some (ExternError ''connection refused''))
   \<and> ProcessPayment server_500 ''http://payment'' amount_21_11
      = (None, Some (PaymentServerError 500))
   \<and> ProcessPayment server_OK ''http://payment'' amount_21_11 = (Some [0x4F, 0x4B], None)"
  using ProcessPayment_outcomes [of server_down "''http://payment''" amount_21_11
      "ExternError ''connection refused''"]
    ProcessPayment_outcomes [of server_500 "''http://payment''" amount_21_11 _
      "\<lparr>StatusCode = 500, Body = EOF, BodyClose = None\<rparr>"]
    ProcessPayment_outcomes [of server_OK "''http://payment''" amount_21_11 _
      "\<lparr>StatusCode = 200, Body = Data [0x4F, 0x4B] EOF, BodyClose = None\<rparr>"]
  by (simp add: server_down_def server_500_def server_OK_def)

text \<open>
  Claim C4, as stated, fails: the server answers 200, the connection breaks after the
  first byte, and \<open>ProcessPayment\<close> returns that byte together with an error.
\<close>

theorem ProcessPayment_broken_body_counterexample:
  "server_broken ''http://payment'' ''application/json'' (request_body amount_21_11)
      = Inr \<lparr>StatusCode = 200, Body = Data [0x4F] (ReadFails (ExternError ''unexpected EOF'')),
             BodyClose = None\<rparr>
   \<and> ProcessPayment server_broken ''http://payment'' amount_21_11
      = (Some [0x4F], Some (ExternError ''unexpected EOF''))"
  by (simp add: server_broken_def ProcessPayment_def ProcessPayment_run_def ReadAll_def)

lemma marshal_NaN: "json_Marshal amount_NaN = Inl (UnsupportedValueError amount_NaN)"
  by (simp add: json_Marshal_def amount_NaN_def IsNaN_def)

text \<open>
  Claim C9, as stated, fails: for a NaN amount \<open>json.Marshal\<close> returns an error, which
  the blank identifier discards; the request goes out with an empty body, the server
  answers 200, and \<open>ProcessPayment\<close> returns the body and a nil error. The function
  writes no log record.
\<close>

theorem ProcessPayment_marshal_error_counterexample:
  "(FromMarshal, UnsupportedValueError amount_NaN)
      \<in> set (raised (ProcessPayment_run server_OK ''http://payment'' amount_NaN))
   \<and> ProcessPayment server_OK ''http://payment'' amount_NaN = (Some [0x4F, 0x4B], None)"
  by (simp add: ProcessPayment_def ProcessPayment_run_def server_OK_def ReadAll_def
      marshal_error_def marshal_NaN from_call_def)

section \<open>Properties of the order handler\<close>

lemma startOrderHandler_eq:
  "startOrderHandler rs (oh, lg) =
     (if ChanClosed \<in> set rs
      then Returned (oh\<lparr>ProcessedOrders := ProcessedOrders oh @ carts_of (payloads rs)\<rparr>,
             lg @ map record_of (payloads rs) @ [Log DebugLevel ''message channel closed'' NoField])
      else Waiting (oh\<lparr>ProcessedOrders := ProcessedOrders oh @ carts_of (payloads rs)\<rparr>,
             lg @ map record_of (payloads rs)))"
proof (induction rs arbitrary: oh lg)
  case Nil
  show ?case by simp
next
  case (Cons r rs)
  show ?case
  proof (cases r)
    case (Received m)
    then show ?thesis
      by (cases m)
        (simp_all add: handle_def assert_Cart_def PlaceOrder_def record_of_def Cons.IH)
  next
    case ChanClosed
    then show ?thesis by simp
  qed
qed

lemma carts_of_append: "carts_of (ms @ ns) = carts_of ms @ carts_of ns"
  by (induction ms rule: carts_of.induct) simp_all

lemma payloads_map_Received: "payloads (map Received ms) = ms"
  by (induction ms) simp_all

lemma payloads_closed: "payloads (map Received ms @ ChanClosed # rest) = ms"
  by (induction ms) simp_all

lemma orders_after_eq: "orders_after rs oh = ProcessedOrders oh @ carts_of (payloads rs)"
  by (simp add: orders_after_def startOrderHandler_eq)

lemma log_after_eq:
  "log_after rs oh = map record_of (payloads rs)
     @ (if ChanClosed \<in> set rs then [Log DebugLevel ''message channel closed'' NoField] else [])"
  by (simp add: log_after_def startOrderHandler_eq)

text \<open>
  Claim C1. Started with an empty log, on any sequence of receives, the loop has
  appended to the log exactly the cart pointers among the messages received before
  the channel was seen closed, in the order of delivery; a message that is not a
  \<open>*Cart\<close> adds nothing and the messages after it are still processed. The loop has
  returned exactly when a receive found the channel closed. Two carts make the log
  longer by 2; a bare \<open>*Case\<close> leaves it as it was, and a cart sent after it is
  appended.
\<close>

theorem consumer_loop_appends_carts_until_closed:
  "orders_after rs NewOrderHandler = carts_of (payloads rs)
   \<and> orders_after (map Received ms) NewOrderHandler = carts_of ms
   \<and> orders_after (map Received ms @ ChanClosed # rest) NewOrderHandler = carts_of ms
   \<and> has_returned (startOrderHandler rs st) = (ChanClosed \<in> set rs)
   \<and> length (orders_after (map Received (ms @ [CartPtr p, CartPtr q])) NewOrderHandler)
       = length (orders_after (map Received ms) NewOrderHandler) + 2
   \<and> orders_after (map Received (ms @ [CasePtr x])) NewOrderHandler
       = orders_after (map Received ms) NewOrderHandler
   \<and> orders_after (map Received (ms @ [CasePtr x, CartPtr p])) NewOrderHandler
       = orders_after (map Received ms) NewOrderHandler @ [p]"
proof -
  have ret: "has_returned (startOrderHandler rs st) = (ChanClosed \<in> set rs)"
    by (cases st) (simp add: startOrderHandler_eq)
  have a: "orders_after (map Received ns) NewOrderHandler = carts_of ns" for ns
    by (simp add: orders_after_eq NewOrderHandler_def payloads_map_Received)
  have b: "orders_after (map Received ms @ ChanClosed # rest) NewOrderHandler = carts_of ms"
    by (simp add: orders_after_eq NewOrderHandler_def payloads_closed)
  have c: "orders_after rs NewOrderHandler = carts_of (payloads rs)"
    by (simp add: orders_after_eq NewOrderHandler_def)
  have d: "length (orders_after (map Received (ms @ [CartPtr p, CartPtr q])) NewOrderHandler)
       = length (orders_after (map Received ms) NewOrderHandler) + 2"
    unfolding a by (simp add: carts_of_append)
  have e: "orders_after (map Received (ms @ [CasePtr x])) NewOrderHandler
       = orders_after (map Received ms) NewOrderHandler"
    unfolding a by (simp add: carts_of_append)
  have f: "orders_after (map Received (ms @ [CasePtr x, CartPtr p])) NewOrderHandler
       = orders_after (map Received ms) NewOrderHandler @ [p]"
    unfolding a by (simp add: carts_of_append)
  from ret a b c d e f show ?thesis by blast
qed

lemma payloads_snoc:
  "payloads (rs @ [r]) =
     (if ChanClosed \<in> set rs then payloads rs
      else case r of Received m \<Rightarrow> payloads rs @ [m] | ChanClosed \<Rightarrow> payloads rs)"
proof (induction rs)
  case Nil
  show ?case by (cases r) simp_all
next
  case (Cons a rs)
  then show ?case by (cases a; cases r) simp_all
qed

lemma payloads_append_prefix: "prefix (payloads rs) (payloads (rs @ rs'))"
proof (induction rs)
  case Nil
  show ?case by simp
next
  case (Cons a rs)
  then show ?case by (cases a) simp_all
qed

lemma carts_of_single: "carts_of [m] = [] \<or> (\<exists>c. carts_of [m] = [c])"
  by (cases m) simp_all

text \<open>
  Claim C8. The log starts empty. One more receive leaves the log as it was or adds
  one cart at its end, so the log after any run is a prefix of the log after any
  longer run: no entry is changed, removed or moved. \<open>PlaceOrder\<close> appends the cart
  and returns a nil error.
\<close>

theorem processed_orders_append_only:
  "orders_after [] NewOrderHandler = []
   \<and> (orders_after (rs @ [r]) oh = orders_after rs oh
        \<or> (\<exists>c. orders_after (rs @ [r]) oh = orders_after rs oh @ [c]))
   \<and> prefix (orders_after rs oh) (orders_after (rs @ rs') oh)
   \<and> PlaceOrder oh c = (oh\<lparr>ProcessedOrders := ProcessedOrders oh @ [c]\<rparr>, None)"
proof -
  have start: "orders_after [] NewOrderHandler = []"
    by (simp add: orders_after_def NewOrderHandler_def)
  have step: "orders_after (rs @ [r]) oh = orders_after rs oh
        \<or> (\<exists>c. orders_after (rs @ [r]) oh = orders_after rs oh @ [c])"
  proof (cases "ChanClosed \<in> set rs")
    case True
    then show ?thesis by (simp add: orders_after_eq payloads_snoc)
  next
    case False
    show ?thesis
    proof (cases r)
      case (Received m)
      with False carts_of_single [of m] show ?thesis
        by (auto simp add: orders_after_eq payloads_snoc carts_of_append)
    next
      case ChanClosed
      with False show ?thesis by (simp add: orders_after_eq payloads_snoc)
    qed
  qed
  obtain zs where "payloads (rs @ rs') = payloads rs @ zs"
    using payloads_append_prefix [of rs rs'] by (auto simp add: prefix_def)
  then have pre: "prefix (orders_after rs oh) (orders_after (rs @ rs') oh)"
    by (simp add: orders_after_eq carts_of_append)
  have place: "PlaceOrder oh c = (oh\<lparr>ProcessedOrders := ProcessedOrders oh @ [c]\<rparr>, None)"
    by (simp add: PlaceOrder_def)
  from start step pre place show ?thesis by blast
qed

text \<open>
  Claim C10. A nil \<open>*Cart\<close> sent on the channel is placed: the nil pointer is appended
  to the log and the success record is written. The type assertion succeeds on every
  \<open>*Cart\<close>, nil or not, and on no other message; neither the pointer nor the cart it
  points to is looked at.
\<close>

theorem nil_cart_is_a_valid_order:
  "orders_after [Received (CartPtr None)] NewOrderHandler = [None]
   \<and> log_after [Received (CartPtr None)] NewOrderHandler
       = [Log InfoLevel ''successfully placed order'' NoField]
   \<and> handle (CartPtr p) (oh, lg)
       = (oh\<lparr>ProcessedOrders := ProcessedOrders oh @ [p]\<rparr>,
          lg @ [Log InfoLevel ''successfully placed order'' NoField])
   \<and> (assert_Cart m \<noteq> None) = (\<exists>p. m = CartPtr p)"
  by (cases m) (simp_all add: orders_after_def log_after_def NewOrderHandler_def handle_def assert_Cart_def PlaceOrder_def)

section \<open>Errors and the log\<close>

text \<open>
  Claim C9, amended. In the consumer loop every message is answered by one log
  record before the next receive: the error record carrying the message when it is
  not a \<open>*Cart\<close>, the success record when it is; \<open>PlaceOrder\<close> returns no error, so
  none is dropped there. In \<open>ProcessPayment\<close> the error of the request, the error
  made for a status of 400 or more and the error of reading the body are returned to
  the caller. (The errors of \<open>json.Marshal\<close> and of closing the body are not covered.)
\<close>

theorem errors_logged_or_returned:
  "log_after rs oh = map record_of (payloads rs)
       @ (if ChanClosed \<in> set rs then [Log DebugLevel ''message channel closed'' NoField] else [])
   \<and> (assert_Cart m = None \<longrightarrow>
        handle m (oh, lg) =
          (oh, lg @ [Log ErrorLevel ''received invalid message on message channel'' (WithField m)]))
   \<and> snd (PlaceOrder oh c) = None
   \<and> (\<forall>(w, e) \<in> set (raised (ProcessPayment_run post paymentServer t)).
        w \<in> {FromPost, FromStatus, FromReadAll}
          \<longrightarrow> ret_err (ProcessPayment_run post paymentServer t) = Some e)"
proof -
  have inv: "assert_Cart m = None \<longrightarrow>
        handle m (oh, lg) =
          (oh, lg @ [Log ErrorLevel ''received invalid message on message channel'' (WithField m)])"
    by (simp add: handle_def)
  have place: "snd (PlaceOrder oh c) = None"
    by (simp add: PlaceOrder_def)
  have pay: "\<forall>(w, e) \<in> set (raised (ProcessPayment_run post paymentServer t)).
        w \<in> {FromPost, FromStatus, FromReadAll}
          \<longrightarrow> ret_err (ProcessPayment_run post paymentServer t) = Some e"
    by (auto simp add: ProcessPayment_run_def from_call_def
        split: sum.splits prod.splits option.splits if_splits)
  from log_after_eq [of rs oh] inv place pay show ?thesis by blast
qed

text \<open>A bare \<open>*Case\<close>, a nil interface, and a server that cannot be reached.\<close>

theorem errors_logged_or_returned_witness:
  "log_after [Received (CasePtr None), Received (CartPtr (Some 1))] NewOrderHandler
      = [Log ErrorLevel ''received invalid message on message channel'' (WithField (CasePtr None)),
         Log InfoLevel ''successfully placed order'' NoField]
   \<and> handle NilInterface (NewOrderHandler, [])
      = (NewOrderHandler,
         [Log ErrorLevel ''received invalid message on message channel'' (WithField NilInterface)])
   \<and> ret_err (ProcessPayment_run server_down ''http://payment'' amount_21_11)
      = Some (ExternError ''connection refused'')"
  using errors_logged_or_returned [where rs = "[Received (CasePtr None), Received (CartPtr (Some 1))]"
      and oh = NewOrderHandler and m = NilInterface and lg = "[]" and c = None
      and post = server_down and paymentServer = "''http://payment''" and t = amount_21_11]
  by (simp add: record_of_def assert_Cart_def ProcessPayment_run_def server_down_def)

section \<open>Properties of the timer loop\<close>

lemma exec_append:
  "exec (xs @ ys) s = (case exec xs s of None \<Rightarrow> None | Some s' \<Rightarrow> exec ys s')"
  by (induction xs arbitrary: s) (simp_all split: option.splits)

lemma step_panicked: "is_panicked (at s) \<Longrightarrow> step a s = None"
  by (simp add: step_def)

lemma exec_panicked: "is_panicked (at s) \<Longrightarrow> exec acts s = Some s' \<Longrightarrow> s' = s"
  by (cases acts) (simp_all add: step_panicked)

lemma step_Finished:
  "at s = Finished \<Longrightarrow> step a s = Some s' \<Longrightarrow>
     at s' = Finished \<and> sent s' = sent s \<and> prefix (delivered s) (delivered s')"
  by (cases a) (auto simp add: step_def sent_def split: if_splits list.splits)

lemma exec_Finished:
  "at s = Finished \<Longrightarrow> exec acts s = Some s' \<Longrightarrow>
     at s' = Finished \<and> sent s' = sent s \<and> prefix (delivered s) (delivered s')"
proof (induction acts arbitrary: s)
  case Nil
  then show ?case by simp
next
  case (Cons a acts)
  from Cons.prems obtain t where t: "step a s = Some t" and r: "exec acts t = Some s'"
    by (auto split: option.splits)
  from step_Finished [OF Cons.prems(1) t]
  have "at t = Finished" and "sent t = sent s" and "prefix (delivered s) (delivered t)"
    by simp_all
  moreover from Cons.IH [OF \<open>at t = Finished\<close> r]
  have "at s' = Finished" and "sent s' = sent t" and "prefix (delivered t) (delivered s')"
    by simp_all
  ultimately show ?case by auto
qed

lemma receive_all:
  "\<not> is_panicked (at s) \<Longrightarrow> chan_buf s = ms \<Longrightarrow>
     \<exists>s'. exec (replicate (length ms) Receive) s = Some s'
          \<and> delivered s' = delivered s @ ms \<and> chan_buf s' = [] \<and> at s' = at s"
proof (induction ms arbitrary: s)
  case Nil
  then show ?case by simp
next
  case (Cons m ms)
  let ?t = "s\<lparr>chan_buf := ms, delivered := delivered s @ [m]\<rparr>"
  have st: "step Receive s = Some ?t"
    using Cons.prems by (simp add: step_def)
  have "\<not> is_panicked (at ?t)" and "chan_buf ?t = ms"
    using Cons.prems by simp_all
  from Cons.IH [OF this] obtain s' where
    "exec (replicate (length ms) Receive) ?t = Some s'"
    "delivered s' = delivered ?t @ ms" "chan_buf s' = []" "at s' = at ?t"
    by blast
  with st show ?case by simp
qed

text \<open>
  Claim C3. When the \<open>select\<close> takes the cancellation case, the loop returns in that
  very step and its ticker is stopped. Whatever the program does afterwards, the loop
  stays returned and the list of messages it has sent (received or buffered) is the
  one it had sent before: no further send. Nothing already received is lost, and the
  messages still in the buffer can all be received: the consumer then holds exactly
  the messages sent before the cancellation.
\<close>

theorem cancellation_ends_the_loop:
  assumes "step SelectDone s = Some s1" and "exec acts s1 = Some s2"
  shows "at s1 = Finished \<and> ticker s1 = None \<and> at s2 = Finished \<and> sent s2 = sent s
         \<and> prefix (delivered s) (delivered s2)
         \<and> (\<exists>s3. exec (replicate (length (chan_buf s2)) Receive) s2 = Some s3
                \<and> delivered s3 = sent s \<and> at s3 = Finished)"
proof -
  from assms(1) have s1: "at s1 = Finished" "ticker s1 = None" "sent s1 = sent s"
    "delivered s1 = delivered s"
    by (auto simp add: step_def sent_def split: if_splits)
  from exec_Finished [OF s1(1) assms(2)]
  have s2: "at s2 = Finished" "sent s2 = sent s1" "prefix (delivered s1) (delivered s2)"
    by simp_all
  from s2(1) have "\<not> is_panicked (at s2)" by simp
  from receive_all [OF this refl] obtain s3 where
    "exec (replicate (length (chan_buf s2)) Receive) s2 = Some s3"
    "delivered s3 = delivered s2 @ chan_buf s2" "at s3 = at s2"
    by blast
  with s1 s2 show ?thesis by (auto simp add: sent_def)
qed

text \<open>
  A message is emitted when the loop has read the cart for it; from then on it is in
  flight, then buffered or received. Only the step \<open>ReadCart\<close> emits, and it emits the
  pointer the subscription holds at that step.
\<close>

lemma step_emitted:
  "step a s = Some s' \<Longrightarrow> \<not> is_panicked (at s') \<Longrightarrow>
     emitted s' = emitted s @ (if a = ReadCart then [CartPtr (GetCart (sub s))] else [])"
  by (cases a)
    (auto simp add: step_def emitted_def sent_def in_flight_def Let_def
      split: if_splits list.splits place.splits)

lemma step_keeps_cart:
  "step a s = Some s' \<Longrightarrow> \<not> is_SetCart a \<Longrightarrow> cart (sub s') = cart (sub s)"
  by (cases a)
    (auto simp add: step_def SetInterval_def Let_def split: if_splits list.splits place.splits)

lemma exec_emitted:
  "exec acts s = Some s' \<Longrightarrow> \<not> is_panicked (at s') \<Longrightarrow> \<forall>a \<in> set acts. \<not> is_SetCart a \<Longrightarrow>
     \<exists>n. emitted s' = emitted s @ replicate n (CartPtr (cart (sub s)))"
proof (induction acts arbitrary: s)
  case Nil
  then have "emitted s' = emitted s @ replicate 0 (CartPtr (cart (sub s)))" by simp
  then show ?case by blast
next
  case (Cons a acts)
  from Cons.prems(1) obtain t where t: "step a s = Some t" and r: "exec acts t = Some s'"
    by (auto split: option.splits)
  have np: "\<not> is_panicked (at t)"
  proof
    assume "is_panicked (at t)"
    from exec_panicked [OF this r] Cons.prems(2) \<open>is_panicked (at t)\<close> show False by simp
  qed
  from Cons.prems(3) have na: "\<not> is_SetCart a" and nas: "\<forall>a \<in> set acts. \<not> is_SetCart a"
    by simp_all
  from Cons.IH [OF r Cons.prems(2) nas] obtain n where
    n: "emitted s' = emitted t @ replicate n (CartPtr (cart (sub t)))" by blast
  have c: "cart (sub t) = cart (sub s)" by (rule step_keeps_cart [OF t na])
  show ?case
  proof (cases "a = ReadCart")
    case True
    with step_emitted [OF t np] have "emitted t = emitted s @ [CartPtr (cart (sub s))]"
      by (simp add: GetCart_def)
    with n c have "emitted s' = emitted s @ replicate (Suc n) (CartPtr (cart (sub s)))"
      by simp
    then show ?thesis by blast
  next
    case False
    with step_emitted [OF t np] have "emitted t = emitted s" by simp
    with n c show ?thesis by auto
  qed
qed

text \<open>
  Claim C2. Every step of a run that has not panicked leaves the emitted messages as
  they are, except the read of the cart in the ticker case, which emits the pointer
  held by the subscription at that moment. A call of \<open>SetCart\<close> changes neither the
  emitted messages (in flight, buffered or received) nor the memory they point to, so
  their content is what it was; and every message emitted after the call, until the
  next call of \<open>SetCart\<close>, is the cart that was set.
\<close>

theorem SetCart_reaches_next_message_only:
  assumes "step (CallSetCart c) s = Some s1" and "exec acts s1 = Some s2"
    and "\<forall>a \<in> set acts. \<not> is_SetCart a" and "\<not> is_panicked (at s2)"
  shows "emitted s1 = emitted s \<and> store s1 = store s
         \<and> map (content s1) (emitted s1) = map (content s) (emitted s)
         \<and> (\<exists>n. emitted s2 = emitted s @ replicate n (CartPtr c))
         \<and> (\<forall>a t t'. step a t = Some t' \<and> \<not> is_panicked (at t') \<longrightarrow>
               emitted t' = emitted t @ (if a = ReadCart then [CartPtr (cart (sub t))] else []))"
proof -
  from assms(1) have s1: "emitted s1 = emitted s" "store s1 = store s" "cart (sub s1) = c"
    by (auto simp add: step_def emitted_def sent_def in_flight_def SetCart_def split: if_splits)
  have "content s1 x = content s x" for x
    unfolding content_def s1(2) ..
  then have "content s1 = content s" by (rule ext)
  with s1(1) have cont: "map (content s1) (emitted s1) = map (content s) (emitted s)"
    by simp
  from exec_emitted [OF assms(2) assms(4) assms(3)] s1
  have nxt: "\<exists>n. emitted s2 = emitted s @ replicate n (CartPtr c)" by simp
  have rd: "\<forall>a t t'. step a t = Some t' \<and> \<not> is_panicked (at t') \<longrightarrow>
               emitted t' = emitted t @ (if a = ReadCart then [CartPtr (cart (sub t))] else [])"
  proof (intro allI impI)
    fix a t t'
    assume "step a t = Some t' \<and> \<not> is_panicked (at t')"
    then have "emitted t' = emitted t @ (if a = ReadCart then [CartPtr (GetCart (sub t))] else [])"
      by (simp add: step_emitted)
    then show "emitted t' = emitted t @ (if a = ReadCart then [CartPtr (cart (sub t))] else [])"
      by (simp add: GetCart_def)
  qed
  from s1 cont nxt rd show ?thesis by blast
qed


text \<open>
  The messages are pointers, not copies: a later \<open>AddCase\<close> on the cart a message
  points to is seen through the message. This is a change of the cart in place, not
  a call of \<open>SetCart\<close>.
\<close>

lemma AddCase_is_seen_through_messages:
  "step (CallAddCase a beerCase) s = Some s' \<Longrightarrow>
     emitted s' = emitted s
     \<and> content s (CartPtr (Some a)) = Some (store s a)
     \<and> content s' (CartPtr (Some a)) = Some (AddCase (store s a) beerCase)"
  by (auto simp add: step_def emitted_def sent_def in_flight_def content_def split: if_splits)

text \<open>
  Once the loop has started, no step reads the interval: a step taken from a state
  and from the same state with another interval gives the same result, up to that
  interval.
\<close>

lemma with_interval_simps:
  "at (with_interval d s) = at s"
  "interval (sub (with_interval d s)) = d"
  "with_interval d (with_interval e s) = with_interval d s"
  "with_interval (interval (sub s)) s = s"
  by (simp_all add: with_interval_def SetInterval_def)

lemma step_SetInterval:
  "step (CallSetInterval t) s = (if is_panicked (at s) then None else Some (with_interval t s))"
  by (simp add: step_def with_interval_def)

lemma step_with_interval:
  "at s \<noteq> NotStarted \<Longrightarrow> \<not> is_SetInterval a \<Longrightarrow>
     step a (with_interval d s) = map_option (with_interval d) (step a s)"
  by (cases a)
    (auto simp add: step_def with_interval_def SetInterval_def SetCart_def GetCart_def
      split: place.splits list.splits)

lemma step_keeps_interval:
  "step a s = Some s' \<Longrightarrow> \<not> is_SetInterval a \<Longrightarrow> interval (sub s') = interval (sub s)"
  by (cases a)
    (auto simp add: step_def SetCart_def Let_def split: if_splits list.splits place.splits)

lemma step_started:
  "at s \<noteq> NotStarted \<Longrightarrow> step a s = Some s' \<Longrightarrow>
     at s' \<noteq> NotStarted \<and> (ticker s' = ticker s \<or> ticker s' = None)"
  by (cases a)
    (auto simp add: step_def Let_def split: if_splits list.splits place.splits)

lemma exec_started:
  "at s \<noteq> NotStarted \<Longrightarrow> exec acts s = Some s' \<Longrightarrow>
     at s' \<noteq> NotStarted \<and> (ticker s' = ticker s \<or> ticker s' = None)"
proof (induction acts arbitrary: s)
  case Nil
  then show ?case by simp
next
  case (Cons a acts)
  from Cons.prems obtain t where t: "step a s = Some t" and r: "exec acts t = Some s'"
    by (auto split: option.splits)
  from step_started [OF Cons.prems(1) t] Cons.IH [OF _ r] show ?case by auto
qed

lemma exec_keeps_interval:
  "exec fs s = Some s' \<Longrightarrow> \<forall>a \<in> set fs. \<not> is_SetInterval a \<Longrightarrow>
     interval (sub s') = interval (sub s)"
proof (induction fs arbitrary: s)
  case Nil
  then show ?case by simp
next
  case (Cons a fs)
  from Cons.prems obtain t where t: "step a s = Some t" and r: "exec fs t = Some s'"
    by (auto split: option.splits)
  from Cons.prems(2) step_keeps_interval [OF t] Cons.IH [OF r] show ?case by simp
qed

lemma exec_with_interval:
  "at s \<noteq> NotStarted \<Longrightarrow> \<forall>a \<in> set fs. \<not> is_SetInterval a \<Longrightarrow>
     exec fs (with_interval d s) = map_option (with_interval d) (exec fs s)"
proof (induction fs arbitrary: s)
  case Nil
  show ?case by simp
next
  case (Cons a fs)
  from Cons.prems(2) have na: "\<not> is_SetInterval a" and nfs: "\<forall>a \<in> set fs. \<not> is_SetInterval a"
    by simp_all
  show ?case
  proof (cases "step a s")
    case None
    with step_with_interval [OF Cons.prems(1) na, of d] show ?thesis by simp
  next
    case (Some t)
    from step_started [OF Cons.prems(1) Some] have "at t \<noteq> NotStarted" by simp
    from Cons.IH [OF this nfs] Some step_with_interval [OF Cons.prems(1) na, of d]
    show ?thesis by simp
  qed
qed

lemma SetInterval_calls_do_not_matter:
  "at s \<noteq> NotStarted \<Longrightarrow> exec acts s = Some s2 \<Longrightarrow>
     exec (filter (\<lambda>a. \<not> is_SetInterval a) acts) s = Some (with_interval (interval (sub s)) s2)"
proof (induction acts arbitrary: s)
  case Nil
  then show ?case by (simp add: with_interval_simps)
next
  case (Cons a acts)
  let ?F = "filter (\<lambda>a. \<not> is_SetInterval a) acts"
  from Cons.prems obtain t where t: "step a s = Some t" and r: "exec acts t = Some s2"
    by (auto split: option.splits)
  from step_started [OF Cons.prems(1) t] have st: "at t \<noteq> NotStarted" by simp
  from Cons.IH [OF st r] have ih: "exec ?F t = Some (with_interval (interval (sub t)) s2)" .
  show ?case
  proof (cases "is_SetInterval a")
    case False
    with t ih step_keeps_interval [OF t False] show ?thesis by simp
  next
    case True
    then obtain d where a: "a = CallSetInterval d" by (cases a) simp_all
    with t have td: "t = with_interval d s"
      by (simp add: step_SetInterval split: if_splits)
    have nF: "\<forall>a \<in> set ?F. \<not> is_SetInterval a" by simp
    from ih td have "exec ?F (with_interval d s) = Some (with_interval d s2)"
      by (simp add: with_interval_simps)
    with exec_with_interval [OF Cons.prems(1) nF, of d]
    have "map_option (with_interval d) (exec ?F s) = Some (with_interval d s2)"
      by simp
    then obtain u where u: "exec ?F s = Some u" and ud: "with_interval d u = with_interval d s2"
      by (cases "exec ?F s") simp_all
    from exec_keeps_interval [OF u nF] have "interval (sub u) = interval (sub s)" .
    then have "u = with_interval (interval (sub s)) (with_interval d u)"
      by (metis with_interval_simps(3) with_interval_simps(4))
    with ud have "u = with_interval (interval (sub s)) s2"
      by (simp add: with_interval_simps)
    with u a show ?thesis by simp
  qed
qed

text \<open>
  Claim C7. The loop reads the interval in its first step, which makes the ticker of
  that period (or panics, when the interval is not positive); a loop started again
  after it has returned reads the interval held then. For a loop that has started,
  the calls of \<open>SetInterval\<close> in a run change nothing but the stored interval: the run
  without them is possible too and ends in the same state up to that field, with the
  same ticks taken and the same messages sent. The ticker of the run keeps its period
  until it is stopped.
\<close>

theorem interval_is_read_at_start_only:
  assumes "at s \<noteq> NotStarted" and "exec acts s = Some s2"
  shows "exec (filter (\<lambda>a. \<not> is_SetInterval a) acts) s = Some (with_interval (interval (sub s)) s2)
         \<and> (ticker s2 = ticker s \<or> ticker s2 = None)
         \<and> (\<forall>t. at t = NotStarted \<longrightarrow>
              step Start t =
                Some (if interval (sub t) \<le> 0 then t\<lparr>at := Panicked NonPositiveInterval\<rparr>
                      else t\<lparr>ticker := Some (interval (sub t)), at := AtSelect\<rparr>))"
proof -
  have start: "\<forall>t. at t = NotStarted \<longrightarrow>
              step Start t =
                Some (if interval (sub t) \<le> 0 then t\<lparr>at := Panicked NonPositiveInterval\<rparr>
                      else t\<lparr>ticker := Some (interval (sub t)), at := AtSelect\<rparr>)"
    by (simp add: step_def GetInterval_def Let_def)
  have run: "exec (filter (\<lambda>a. \<not> is_SetInterval a) acts) s
      = Some (with_interval (interval (sub s)) s2)"
    by (rule SetInterval_calls_do_not_matter [OF assms])
  from exec_started [OF assms] have tick: "ticker s2 = ticker s \<or> ticker s2 = None"
    by (rule conjunct2)
  show ?thesis
    by (intro conjI) (rule run, rule tick, rule start)
qed


subsection \<open>Runs of the test program\<close>

lemmas run_simps =
  step_def test_sys_def initial_def GetInterval_def GetCart_def SetCart_def SetInterval_def
  Let_def

text \<open>
  The run of \<open>TestStartSubscriptionTimer\<close>: the first message is \<open>cart1\<close>; after
  \<open>SetCart(cart2)\<close> the next one is \<open>cart2\<close>.
\<close>

theorem SetCart_reaches_next_message_only_witness:
  "\<exists>s s1 s2.
     exec [Start, TickerFires, SelectTick, ReadCart, SendDirect] (test_sys 0) = Some s
     \<and> step (CallSetCart (Some 2)) s = Some s1
     \<and> exec [TickerFires, SelectTick, ReadCart, SendDirect] s1 = Some s2
     \<and> delivered s = [CartPtr (Some 1)]
     \<and> delivered s2 = [CartPtr (Some 1), CartPtr (Some 2)]
     \<and> emitted s1 = emitted s
     \<and> map (content s1) (emitted s1) = map (content s) (emitted s)
     \<and> (\<exists>n. emitted s2 = emitted s @ replicate n (CartPtr (Some 2)))"
proof -
  let ?s = "(test_sys 0)\<lparr>at := AtSelect, ticker := Some 1000000000,
    delivered := [CartPtr (Some 1)]\<rparr>"
  let ?s1 = "?s\<lparr>sub := \<lparr>cart = Some 2, interval = 1000000000\<rparr>\<rparr>"
  let ?s2 = "?s1\<lparr>delivered := [CartPtr (Some 1), CartPtr (Some 2)]\<rparr>"
  have a: "exec [Start, TickerFires, SelectTick, ReadCart, SendDirect] (test_sys 0) = Some ?s"
    by (simp add: run_simps)
  have b: "step (CallSetCart (Some 2)) ?s = Some ?s1"
    by (simp add: run_simps)
  have c: "exec [TickerFires, SelectTick, ReadCart, SendDirect] ?s1 = Some ?s2"
    by (simp add: run_simps)
  have d: "\<forall>a \<in> set [TickerFires, SelectTick, ReadCart, SendDirect]. \<not> is_SetCart a"
    by simp
  have e: "\<not> is_panicked (at ?s2)"
    by simp
  have f: "delivered ?s = [CartPtr (Some 1)]"
    "delivered ?s2 = [CartPtr (Some 1), CartPtr (Some 2)]"
    by simp_all
  from SetCart_reaches_next_message_only [OF b c d e]
  have "emitted ?s1 = emitted ?s
     \<and> map (content ?s1) (emitted ?s1) = map (content ?s) (emitted ?s)
     \<and> (\<exists>n. emitted ?s2 = emitted ?s @ replicate n (CartPtr (Some 2)))"
    by blast
  with a b c f show ?thesis by blast
qed

text \<open>
  With a buffer of one message: the loop sends \<open>cart1\<close>, the context is cancelled, the
  loop returns; the buffered message is received afterwards.
\<close>

theorem cancellation_ends_the_loop_witness:
  "\<exists>s s1 s2.
     exec [Start, TickerFires, SelectTick, ReadCart, SendBuffered, Cancel] (test_sys 1) = Some s
     \<and> step SelectDone s = Some s1
     \<and> exec [CallSetCart (Some 2), Receive] s1 = Some s2
     \<and> chan_buf s = [CartPtr (Some 1)]
     \<and> at s1 = Finished \<and> at s2 = Finished \<and> sent s2 = sent s
     \<and> delivered s2 = [CartPtr (Some 1)]"
proof -
  let ?s = "(test_sys 1)\<lparr>at := AtSelect, ticker := Some 1000000000, cancelled := True,
    chan_buf := [CartPtr (Some 1)]\<rparr>"
  let ?s1 = "?s\<lparr>at := Finished, ticker := None\<rparr>"
  let ?s2 = "?s1\<lparr>sub := \<lparr>cart = Some 2, interval = 1000000000\<rparr>, chan_buf := [],
    delivered := [CartPtr (Some 1)]\<rparr>"
  have a: "exec [Start, TickerFires, SelectTick, ReadCart, SendBuffered, Cancel] (test_sys 1) = Some ?s"
    by (simp add: run_simps)
  have b: "step SelectDone ?s = Some ?s1"
    by (simp add: run_simps)
  have c: "exec [CallSetCart (Some 2), Receive] ?s1 = Some ?s2"
    by (simp add: run_simps)
  have f: "chan_buf ?s = [CartPtr (Some 1)]" "delivered ?s2 = [CartPtr (Some 1)]"
    by simp_all
  from cancellation_ends_the_loop [OF b c]
  have "at ?s1 = Finished \<and> at ?s2 = Finished \<and> sent ?s2 = sent ?s"
    by blast
  with a b c f show ?thesis by blast
qed

text \<open>
  The loop is started with an interval of one second; \<open>SetInterval(5)\<close> changes the
  field and not the ticker.
\<close>

theorem interval_is_read_at_start_only_witness:
  "\<exists>s s2.
     exec [Start] (test_sys 0) = Some s
     \<and> exec [CallSetInterval 5, TickerFires, SelectTick] s = Some s2
     \<and> interval (sub s2) = 5
     \<and> ticker s2 = Some 1000000000
     \<and> exec [TickerFires, SelectTick] s = Some (with_interval 1000000000 s2)"
proof -
  let ?s = "(test_sys 0)\<lparr>at := AtSelect, ticker := Some 1000000000\<rparr>"
  let ?s2 = "?s\<lparr>sub := \<lparr>cart = Some 1, interval = 5\<rparr>, at := GotTick\<rparr>"
  have a: "exec [Start] (test_sys 0) = Some ?s"
    by (simp add: run_simps)
  have b: "at ?s \<noteq> NotStarted"
    by simp
  have c: "exec [CallSetInterval 5, TickerFires, SelectTick] ?s = Some ?s2"
    by (simp add: run_simps)
  have f: "interval (sub ?s2) = 5" "ticker ?s2 = Some 1000000000"
    "interval (sub ?s) = 1000000000"
    by (simp_all add: test_sys_def initial_def)
  from interval_is_read_at_start_only [OF b c]
  have "exec (filter (\<lambda>a. \<not> is_SetInterval a) [CallSetInterval 5, TickerFires, SelectTick]) ?s
      = Some (with_interval (interval (sub ?s)) ?s2)"
    by blast
  then have "exec [TickerFires, SelectTick] ?s = Some (with_interval 1000000000 ?s2)"
    by (simp only: f(3) filter.simps is_SetInterval.simps not_True_eq_False not_False_eq_True if_True if_False)
  with a c f show ?thesis by blast
qed

end
